theory Spec2Isabelle
  imports Complex_Main
begin

section \<open>Text\<close>

text \<open>
  Cell texts are Isabelle strings: a character is a code point below 256, so the texts of
  the model are the Python strings over Latin-1. On these the white space of
  \<^verbatim>\<open>str.strip\<close> and of the pattern class \<^verbatim>\<open>\s\<close> is the codes 9 to 13, 28 to 32,
  133 and 160, the digits of \<^verbatim>\<open>\d\<close> are 0 to 9, and under \<^verbatim>\<open>re.IGNORECASE\<close> a
  letter A..Z or a..z of a pattern matches that letter in either case and nothing else.
  Numbers are exact rationals: a Python float read from a decimal numeral stands for the
  value of that numeral.
\<close>

definition is_space :: "char \<Rightarrow> bool" where
  "is_space c =
     (let n = (of_char c :: nat)
      in (9 \<le> n \<and> n \<le> 13) \<or> (28 \<le> n \<and> n \<le> 32) \<or> n = 133 \<or> n = 160)"

definition is_digit :: "char \<Rightarrow> bool" where
  "is_digit c = (let n = (of_char c :: nat) in 48 \<le> n \<and> n \<le> 57)"

definition digit_val :: "char \<Rightarrow> nat" where
  "digit_val c = of_char c - 48"

definition lower :: "char \<Rightarrow> char" where
  "lower c =
     (case map_of (zip ''ABCDEFGHIJKLMNOPQRSTUVWXYZ'' ''abcdefghijklmnopqrstuvwxyz'') c of
        Some l \<Rightarrow> l
      | None \<Rightarrow> c)"

text \<open>\<^verbatim>\<open>s.strip()\<close>: white space removed at both ends.\<close>

definition strip :: "string \<Rightarrow> string" where
  "strip s = rev (dropWhile is_space (rev (dropWhile is_space s)))"

text \<open>\<^verbatim>\<open>sub in s\<close> on Python strings: \<open>sub\<close> occurs in \<open>s\<close> as a contiguous block.\<close>

fun starts_with :: "string \<Rightarrow> string \<Rightarrow> bool" where
  "starts_with [] s = True"
| "starts_with (p # ps) [] = False"
| "starts_with (p # ps) (c # cs) = (p = c \<and> starts_with ps cs)"

fun contains :: "string \<Rightarrow> string \<Rightarrow> bool" where
  "contains sub [] = starts_with sub []"
| "contains sub (c # cs) = (starts_with sub (c # cs) \<or> contains sub cs)"

section \<open>The regular expressions of the source\<close>

text \<open>
  Every pattern of the source is a sequence of items, each a single character (a literal
  or a class) or a class under \<^verbatim>\<open>+\<close>. \<open>match_here\<close> is the backtracking matcher of
  \<^verbatim>\<open>re\<close> on such a sequence, anchored at the start of the text: \<^verbatim>\<open>+\<close> is greedy, it
  first tries to take one more character and gives characters back only when the rest of
  the pattern fails. The result lists the text matched by each item. \<open>re_search\<close> is
  \<^verbatim>\<open>re.search\<close>: the match at the leftmost position that has one.
\<close>

datatype item = One "char \<Rightarrow> bool" | Plus "char \<Rightarrow> bool"

fun match_here :: "item list \<Rightarrow> string \<Rightarrow> string list option" where
  "match_here [] s = Some []"
| "match_here (One c # its) [] = None"
| "match_here (One c # its) (x # xs) =
     (if c x then map_option ((#) [x]) (match_here its xs) else None)"
| "match_here (Plus c # its) [] = None"
| "match_here (Plus c # its) (x # xs) =
     (if c x then
        (case match_here (Plus c # its) xs of
           Some (m # ms) \<Rightarrow> Some ((x # m) # ms)
         | _ \<Rightarrow> map_option ((#) [x]) (match_here its xs))
      else None)"

fun re_search :: "item list \<Rightarrow> string \<Rightarrow> string list option" where
  "re_search pat [] = match_here pat []"
| "re_search pat (c # cs) =
     (case match_here pat (c # cs) of
        Some ms \<Rightarrow> Some ms
      | None \<Rightarrow> re_search pat cs)"

text \<open>A literal under \<^verbatim>\<open>re.IGNORECASE\<close>, the class \<^verbatim>\<open>[:\s]\<close>, the dot.\<close>

definition lit :: "string \<Rightarrow> item list" where
  "lit s = map (\<lambda>p. One (\<lambda>c. lower c = lower p)) s"

definition sep :: "char \<Rightarrow> bool" where
  "sep c = (c = CHR '':'' \<or> is_space c)"

definition dot :: "char \<Rightarrow> bool" where
  "dot c = (c = CHR ''.'')"

text \<open>
  A pattern \<^verbatim>\<open>LABEL[:\s]+(VALUE)\<close> searched in a text; the result is
  \<^verbatim>\<open>group(1)\<close> of the match, \<open>None\<close> when there is no match.
\<close>

definition label_pattern :: "string \<Rightarrow> item list" where
  "label_pattern label = lit label @ [Plus sep]"

definition search_group :: "item list \<Rightarrow> item list \<Rightarrow> string \<Rightarrow> string option" where
  "search_group pre grp s =
     map_option (\<lambda>ms. concat (drop (length pre) ms)) (re_search (pre @ grp) s)"

text \<open>\<^verbatim>\<open>(\d\.\d+)\<close> and \<^verbatim>\<open>(\d+)\<close>.\<close>

definition decimal :: "item list" where
  "decimal = [One is_digit, One dot, Plus is_digit]"

definition integer :: "item list" where
  "integer = [Plus is_digit]"

text \<open>
  \<^verbatim>\<open>int\<close> and \<^verbatim>\<open>float\<close> on the texts the two groups can match: a run of digits,
  and a run of digits, a dot and a run of digits.
\<close>

fun int_of_digits :: "string \<Rightarrow> nat \<Rightarrow> nat" where
  "int_of_digits [] acc = acc"
| "int_of_digits (c # cs) acc = int_of_digits cs (10 * acc + digit_val c)"

definition py_int :: "string \<Rightarrow> rat" where
  "py_int s = of_nat (int_of_digits s 0)"

definition py_float :: "string \<Rightarrow> rat" where
  "py_float s =
     (let ip = takeWhile is_digit s; fp = drop (length ip + 1) s
      in of_nat (int_of_digits ip 0) + of_nat (int_of_digits fp 0) / 10 ^ length fp)"

section \<open>The Collector: \<^verbatim>\<open>fetch_data.py\<close>\<close>

subsection \<open>\<^verbatim>\<open>parse_stats\<close>\<close>

text \<open>
  The dictionary \<^verbatim>\<open>parse_stats\<close> returns has the keys \<open>gpa\<close>, \<open>gre_verbal\<close>,
  \<open>gre_quant\<close> and \<open>gre_writing\<close>; \<open>None\<close> is Python's \<^verbatim>\<open>None\<close>.
\<close>

record stats =
  gpa :: "rat option"
  gre_verbal :: "rat option"
  gre_quant :: "rat option"
  gre_writing :: "rat option"

definition parse_stats :: "string \<Rightarrow> stats" where
  "parse_stats stats_raw =
     (let gpa_match = search_group (label_pattern ''GPA'') decimal stats_raw;
          gre_v_match = search_group (label_pattern ''GRE Verbal'') integer stats_raw;
          gre_q_match = search_group (label_pattern ''GRE Quantitative'') integer stats_raw;
          gre_w_match = search_group (label_pattern ''GRE Analytical Writing'') decimal stats_raw
      in \<lparr> gpa = map_option py_float gpa_match,
           gre_verbal = map_option py_int gre_v_match,
           gre_quant = map_option py_int gre_q_match,
           gre_writing = map_option py_float gre_w_match \<rparr>)"

subsection \<open>\<^verbatim>\<open>scrape_gradcafe_page\<close>\<close>

text \<open>
  An entry is the dictionary appended for a kept row: the four keys of the statistics and
  the text fields. The same record is a row of the data frame built from the entries, where
  a missing value (\<^verbatim>\<open>None\<close>, \<^verbatim>\<open>NaN\<close>) is \<open>None\<close>; the decision is optional
  for that reason.
\<close>

record entry = stats +
  institution :: string
  program :: string
  degree :: string
  season :: string
  decision :: "string option"
  stats_raw :: string

text \<open>
  The body of the loop over the rows, on the texts of the row's \<^verbatim>\<open>td\<close> cells:
  \<open>None\<close> when the row is passed over (\<^verbatim>\<open>continue\<close>, or the test on the three
  fields fails), the appended entry otherwise.
\<close>

definition row_entry :: "string list \<Rightarrow> entry option" where
  "row_entry cells =
     (if length cells < 7 then None
      else
        let institution = strip (cells ! 0);
            program = strip (cells ! 1);
            degree = strip (cells ! 2);
            season = strip (cells ! 3);
            decision = strip (cells ! 4);
            stats_raw = (if length cells > 6 then strip (cells ! 6) else [])
        in if contains ''Yale'' institution \<and> contains ''Political Science'' program
              \<and> contains ''PhD'' degree
           then
             let stats = parse_stats stats_raw
             in Some \<lparr> gpa = gpa stats, gre_verbal = gre_verbal stats,
                       gre_quant = gre_quant stats, gre_writing = gre_writing stats,
                       institution = institution, program = program, degree = degree,
                       season = season, decision = Some decision, stats_raw = stats_raw \<rparr>
           else None)"

fun extract_rows :: "string list list \<Rightarrow> entry list \<Rightarrow> entry list" where
  "extract_rows [] entries = entries"
| "extract_rows (cells # rows) entries =
     (case row_entry cells of
        None \<Rightarrow> extract_rows rows entries
      | Some e \<Rightarrow> extract_rows rows (entries @ [e]))"

text \<open>
  Each of the two handlers saves the page source before it returns the empty list:
  \<^verbatim>\<open>with open(...) as f: f.write(driver.page_source)\<close>. Nothing guards that block, so it
  either completes or raises (a session that no longer answers, a directory that cannot be
  written).
\<close>

datatype snapshot = Saved | Snapshot_raises

text \<open>
  What the browser session answers for a page number: the body of the outer \<^verbatim>\<open>try\<close>
  raises an exception that the inner handler does not catch (in \<^verbatim>\<open>driver.get\<close> or
  while the rows are read), or the inner handler catches \<^verbatim>\<open>NoSuchElementException\<close>
  (there is no element of class \<^verbatim>\<open>submission-table\<close>), or there is the table, given as
  the cell texts of each of its \<^verbatim>\<open>tr\<close> rows, the header row first. With the first two
  answers comes the outcome of the snapshot of each handler that can run: \<open>Raises w\<close> has
  the outcome \<open>w\<close> of the outer handler's snapshot; \<open>NoTable v w\<close> has the outcome \<open>v\<close>
  of the inner handler's snapshot and the outcome \<open>w\<close> of the outer handler's, which runs
  when the inner one raises, the inner handler being inside the outer \<^verbatim>\<open>try\<close>. The
  loop asks for each page at most once, so the session is a function of the page number.
  Logging and the sleeps are effects outside the model.
\<close>

datatype page = Raises snapshot | NoTable snapshot snapshot | Table "string list list"

type_synonym driver = "int \<Rightarrow> page"

text \<open>
  An exception raised by the snapshot of the outer handler is caught nowhere: it leaves
  \<^verbatim>\<open>scrape_gradcafe_page\<close>, the loop of \<^verbatim>\<open>scrape_all_pages\<close> and \<^verbatim>\<open>main\<close>.
\<close>

datatype error = Uncaught

definition error_handler :: "snapshot \<Rightarrow> error + entry list" where
  "error_handler written =
     (case written of
        Saved \<Rightarrow> Inr []
      | Snapshot_raises \<Rightarrow> Inl Uncaught)"

definition scrape_gradcafe_page :: "driver \<Rightarrow> int \<Rightarrow> error + entry list" where
  "scrape_gradcafe_page driver page_num =
     (case driver page_num of
        Table trs \<Rightarrow> Inr (extract_rows (drop 1 trs) [])
      | NoTable written error_written \<Rightarrow>
          (case written of
             Saved \<Rightarrow> Inr []
           | Snapshot_raises \<Rightarrow> error_handler error_written)
      | Raises error_written \<Rightarrow> error_handler error_written)"

subsection \<open>\<^verbatim>\<open>scrape_all_pages\<close>\<close>

text \<open>
  The state of the loop is the list of the pages requested so far, oldest first, and
  \<^verbatim>\<open>all_results\<close>. The pages of \<^verbatim>\<open>range(start_page, end_page + 1)\<close> are
  \<open>[start_page..end_page]\<close>. A data frame is the list of its rows. The loop has no
  handler: an exception that leaves \<^verbatim>\<open>scrape_gradcafe_page\<close> ends it, and no data frame
  is returned; the pages requested until then have been requested.
\<close>

type_synonym dataframe = "entry list"

fun scrape_pages ::
  "driver \<Rightarrow> int list \<Rightarrow> int list \<times> entry list \<Rightarrow> int list \<times> (error + entry list)" where
  "scrape_pages driver [] (requested, all_results) = (requested, Inr all_results)"
| "scrape_pages driver (page # pages) (requested, all_results) =
     (case scrape_gradcafe_page driver page of
        Inl e \<Rightarrow> (requested @ [page], Inl e)
      | Inr results \<Rightarrow>
          if results = [] then (requested @ [page], Inr all_results)
          else scrape_pages driver pages (requested @ [page], all_results @ results))"

definition scrape_all_pages :: "driver \<Rightarrow> int \<Rightarrow> int \<Rightarrow> int list \<times> (error + dataframe)" where
  "scrape_all_pages driver start_page end_page =
     scrape_pages driver [start_page..end_page] ([], [])"

subsection \<open>\<^verbatim>\<open>process_data\<close>\<close>

definition decision_mapping :: "string \<rightharpoonup> string" where
  "decision_mapping =
     map_of [(''Accepted'', ''Accept''), (''Rejected'', ''Reject''),
             (''Wait Listed'', ''Waitlist''), (''Interview'', ''Other''),
             (''Other'', ''Other'')]"

text \<open>
  \<^verbatim>\<open>Series.map\<close> with a dictionary (a value that is missing or not a key becomes
  missing) and \<^verbatim>\<open>fillna\<close> (a missing value becomes the fill value, which may itself
  be \<^verbatim>\<open>NaN\<close>).
\<close>

definition series_map :: "('a \<rightharpoonup> 'b) \<Rightarrow> 'a option \<Rightarrow> 'b option" where
  "series_map m x = (case x of None \<Rightarrow> None | Some k \<Rightarrow> m k)"

definition fillna :: "'a option \<Rightarrow> 'a option \<Rightarrow> 'a option" where
  "fillna v x = (case x of None \<Rightarrow> v | Some y \<Rightarrow> Some y)"

text \<open>
  \<^verbatim>\<open>df['decision'].map(decision_mapping).fillna('Unknown')\<close> on one value of
  the column.
\<close>

definition clean_decision :: "string option \<Rightarrow> string option" where
  "clean_decision d = fillna (Some ''Unknown'') (series_map decision_mapping d)"

text \<open>
  \<^verbatim>\<open>Series.mean\<close> and \<^verbatim>\<open>Series.median\<close> skip the missing values and are
  \<^verbatim>\<open>NaN\<close> when no value is left.
\<close>

definition present :: "'a option list \<Rightarrow> 'a list" where
  "present col = List.map_filter (\<lambda>x. x) col"

definition mean :: "rat option list \<Rightarrow> rat option" where
  "mean col =
     (let vs = present col
      in if vs = [] then None else Some (sum_list vs / of_nat (length vs)))"

definition median :: "rat option list \<Rightarrow> rat option" where
  "median col =
     (let vs = sort (present col); n = length vs
      in if n = 0 then None
         else if odd n then Some (vs ! (n div 2))
         else Some ((vs ! (n div 2 - 1) + vs ! (n div 2)) / 2))"

text \<open>
  The four numeric columns are filled by \<^verbatim>\<open>df[col].fillna(value, inplace=True)\<close>: the
  fill is made in the object \<^verbatim>\<open>df[col]\<close> returns, and nothing is assigned back to the
  frame. In a pandas without copy-on-write that object shares its data with the frame, and
  the fill shows in the frame. Under copy-on-write (an option of pandas 2, the only mode
  from pandas 3 on) it is an object of its own, and the frame keeps its missing values.
  Which of the two holds is a property of the installed pandas, not of the source: it is
  the parameter \<open>copy_on_write\<close> of the model. The decision column is assigned back to
  the frame and does not depend on it.
\<close>

definition fillna_inplace :: "bool \<Rightarrow> 'a option \<Rightarrow> 'a option \<Rightarrow> 'a option" where
  "fillna_inplace copy_on_write v x = (if copy_on_write then x else fillna v x)"

text \<open>
  The numeric columns hold numbers or missing values only, so \<^verbatim>\<open>pd.to_numeric\<close>
  leaves them as they are.
\<close>

definition process_data :: "bool \<Rightarrow> dataframe option \<Rightarrow> dataframe option" where
  "process_data copy_on_write df =
     (case df of
        None \<Rightarrow> None
      | Some rows \<Rightarrow>
          if length rows = 0 then None
          else
            let fill = fillna_inplace copy_on_write;
                df1 = map (\<lambda>r. r\<lparr>decision := clean_decision (decision r)\<rparr>) rows;
                mean_gpa = mean (map gpa df1);
                df2 = map (\<lambda>r. r\<lparr>gpa := fill mean_gpa (gpa r)\<rparr>) df1;
                median_gre_verbal = median (map gre_verbal df2);
                median_gre_quant = median (map gre_quant df2);
                median_gre_writing = median (map gre_writing df2);
                df3 = map (\<lambda>r. r\<lparr>gre_verbal := fill median_gre_verbal (gre_verbal r)\<rparr>) df2;
                df4 = map (\<lambda>r. r\<lparr>gre_quant := fill median_gre_quant (gre_quant r)\<rparr>) df3;
                df5 = map (\<lambda>r. r\<lparr>gre_writing := fill median_gre_writing (gre_writing r)\<rparr>) df4
            in Some df5)"

subsection \<open>\<^verbatim>\<open>main\<close>\<close>

text \<open>
  The pages requested and the table handed to \<^verbatim>\<open>to_csv\<close>, \<open>None\<close> when nothing was
  scraped and no file is written. \<^verbatim>\<open>main\<close> calls \<^verbatim>\<open>scrape_all_pages\<close> outside any
  \<^verbatim>\<open>try\<close>, so an exception that leaves the loop leaves \<^verbatim>\<open>main\<close> too. The page range
  is a parameter here; the source passes its constants 1 and 170.
\<close>

definition collect ::
  "bool \<Rightarrow> driver \<Rightarrow> int \<Rightarrow> int \<Rightarrow> int list \<times> (error + dataframe option)" where
  "collect copy_on_write driver start_page end_page =
     (let (requested, scraped) = scrape_all_pages driver start_page end_page
      in case scraped of
           Inl e \<Rightarrow> (requested, Inl e)
         | Inr df \<Rightarrow>
             if length df > 0 then (requested, Inr (process_data copy_on_write (Some df)))
             else (requested, Inr None))"

section \<open>The Analyzer: \<^verbatim>\<open>analyze_gradcafe.py\<close>\<close>

text \<open>
  A row of the bulk table has the columns \<open>uni_name\<close> and \<open>major\<close>, missing or a
  text, and further columns the filter does not read: they are the extension of the
  record. \<^verbatim>\<open>str.contains(pat, case=False, na=False)\<close> searches the pattern as a
  regular expression, ignoring case, and answers \<open>False\<close> on a missing value; both
  patterns of the source are plain literals.
\<close>

record analysis_row =
  uni_name :: "string option"
  major :: "string option"

definition str_contains :: "string \<Rightarrow> string option \<Rightarrow> bool" where
  "str_contains pat x =
     (case x of
        None \<Rightarrow> False
      | Some s \<Rightarrow> re_search (lit pat) s \<noteq> None)"

definition analyze_yale_polisci ::
  "'a analysis_row_scheme list option \<Rightarrow> 'a analysis_row_scheme list option" where
  "analyze_yale_polisci df =
     (case df of
        None \<Rightarrow> None
      | Some rows \<Rightarrow>
          Some (filter (\<lambda>r. str_contains ''Yale'' (uni_name r)
                            \<and> str_contains ''Political Science'' (major r)) rows))"

section \<open>Example inputs\<close>

text \<open>
  The scenario of the specification: page 1 holds a header row and one row of the target
  programme, page 2 a header row only, and every later request raises and has its
  snapshot saved. \<open>example_entry\<close> is the entry of the row of page 1.
\<close>

definition example_stats :: string where
  "example_stats =
     ''GPA: 3.80, GRE Verbal: 165, GRE Quantitative: 168, GRE Analytical Writing: 4.50''"

definition example_cells :: "string list" where
  "example_cells =
     [''Yale University'', ''Political Science'', ''PhD'', ''F24'', ''Accepted'', ''1 Jan'',
      example_stats]"

definition example_header :: "string list" where
  "example_header = []"

definition example_driver :: driver where
  "example_driver =
     (\<lambda>p. if p = 1 then Table [example_header, example_cells]
          else if p = 2 then Table [example_header]
          else Raises Saved)"

definition example_entry :: entry where
  "example_entry =
     \<lparr> gpa = Some (19 / 5), gre_verbal = Some 165, gre_quant = Some 168,
       gre_writing = Some (9 / 2),
       institution = ''Yale University'', program = ''Political Science'', degree = ''PhD'',
       season = ''F24'', decision = Some ''Accepted'', stats_raw = example_stats \<rparr>"

section \<open>Properties of tables and further example inputs\<close>

text \<open>
  \<open>impute copy_on_write rows r\<close> is what \<^verbatim>\<open>process_data\<close> makes of the row \<open>r\<close> of
  the table \<open>rows\<close>: the five statements of the source that fill a column, applied to one
  row. It is proved below to agree with \<open>process_data\<close>.
\<close>

definition impute :: "bool \<Rightarrow> dataframe \<Rightarrow> entry \<Rightarrow> entry" where
  "impute copy_on_write rows r =
     r\<lparr> gpa := fillna_inplace copy_on_write (mean (map gpa rows)) (gpa r),
        gre_verbal := fillna_inplace copy_on_write (median (map gre_verbal rows)) (gre_verbal r),
        gre_quant := fillna_inplace copy_on_write (median (map gre_quant rows)) (gre_quant r),
        gre_writing :=
          fillna_inplace copy_on_write (median (map gre_writing rows)) (gre_writing r),
        decision := clean_decision (decision r) \<rparr>"

text \<open>
  A table is fully populated when no numeric value is missing; its decisions are canonical
  when each is one of the five labels the normalization can produce.
\<close>

definition fully_populated :: "dataframe \<Rightarrow> bool" where
  "fully_populated rows =
     list_all (\<lambda>r. gpa r \<noteq> None \<and> gre_verbal r \<noteq> None \<and> gre_quant r \<noteq> None
                    \<and> gre_writing r \<noteq> None) rows"

definition canonical_decisions :: "dataframe \<Rightarrow> bool" where
  "canonical_decisions rows =
     list_all (\<lambda>r. decision r \<in> set (map Some [''Accept'', ''Reject'', ''Waitlist'', ''Other'', ''Unknown''])) rows"

text \<open>
  A raw table with a row without statistics and a label outside the mapping table, the
  output of the scenario, a table whose decision is a fixed point of the normalization,
  and a table with no GPA at all.
\<close>

definition example_raw_table :: dataframe where
  "example_raw_table =
     [\<lparr> gpa = Some (7 / 2), gre_verbal = Some 160, gre_quant = Some 165, gre_writing = Some 4,
        institution = ''Yale University'', program = ''Political Science'', degree = ''PhD'',
        season = ''F24'', decision = Some ''Accepted'', stats_raw = '''' \<rparr>,
      \<lparr> gpa = None, gre_verbal = None, gre_quant = None, gre_writing = None,
        institution = ''Yale University'', program = ''Political Science'', degree = ''PhD'',
        season = ''F23'', decision = Some ''Interview'', stats_raw = '''' \<rparr>,
      \<lparr> gpa = Some 4, gre_verbal = Some 170, gre_quant = Some 155, gre_writing = Some 5,
        institution = ''Yale University'', program = ''Political Science'', degree = ''PhD'',
        season = ''F22'', decision = Some ''Pending'', stats_raw = '''' \<rparr>]"

definition example_normalized :: dataframe where
  "example_normalized =
     [\<lparr> gpa = Some (19 / 5), gre_verbal = Some 165, gre_quant = Some 168,
        gre_writing = Some (9 / 2),
        institution = ''Yale University'', program = ''Political Science'', degree = ''PhD'',
        season = ''F24'', decision = Some ''Accept'', stats_raw = example_stats \<rparr>]"

definition example_fixed :: dataframe where
  "example_fixed =
     [\<lparr> gpa = Some (19 / 5), gre_verbal = Some 165, gre_quant = Some 168,
        gre_writing = Some (9 / 2),
        institution = ''Yale University'', program = ''Political Science'', degree = ''PhD'',
        season = ''F24'', decision = Some ''Other'', stats_raw = example_stats \<rparr>]"

definition example_no_gpa :: dataframe where
  "example_no_gpa =
     [\<lparr> gpa = None, gre_verbal = Some 160, gre_quant = None, gre_writing = None,
        institution = ''Yale University'', program = ''Political Science'', degree = ''PhD'',
        season = ''F24'', decision = Some ''Rejected'', stats_raw = ''GRE Verbal: 160'' \<rparr>,
      \<lparr> gpa = None, gre_verbal = None, gre_quant = None, gre_writing = None,
        institution = ''Yale University'', program = ''Political Science'', degree = ''PhD'',
        season = ''F23'', decision = Some ''Accepted'', stats_raw = '''' \<rparr>]"

text \<open>
  A session whose second page raises and has its snapshot saved, one whose second page
  raises and whose snapshot raises too (the browser is gone), two rows the row filter
  passes over (too few cells; the institution in lower case), and rows of the Analyzer's
  bulk table: an unrelated
  school and programme whose names contain the two search texts, the target in another
  case, another university, and a row without a university name.
\<close>

definition example_raising_driver :: driver where
  "example_raising_driver =
     (\<lambda>p. if p = 1 then Table [example_header, example_cells] else Raises Saved)"

definition example_dead_session :: driver where
  "example_dead_session =
     (\<lambda>p. if p = 1 then Table [example_header, example_cells] else Raises Snapshot_raises)"

definition example_short_cells :: "string list" where
  "example_short_cells =
     [''Yale University'', ''Political Science'', ''PhD'', ''F24'', ''Accepted'', example_stats]"

definition example_lower_case_cells :: "string list" where
  "example_lower_case_cells =
     [''yale university'', ''Political Science'', ''PhD'', ''F24'', ''Accepted'', ''1 Jan'',
      example_stats]"

definition example_unrelated_row :: analysis_row where
  "example_unrelated_row =
     \<lparr> uni_name = Some ''Royale Business School'', major = Some ''Apolitical Sciences'' \<rparr>"

definition example_exact_row :: analysis_row where
  "example_exact_row =
     \<lparr> uni_name = Some ''YALE UNIVERSITY'', major = Some ''political science'' \<rparr>"

definition example_other_row :: analysis_row where
  "example_other_row =
     \<lparr> uni_name = Some ''Harvard University'', major = Some ''Political Science'' \<rparr>"

definition example_missing_row :: analysis_row where
  "example_missing_row = \<lparr> uni_name = None, major = Some ''Political Science'' \<rparr>"



section \<open>Evaluation on the scenario\<close>

lemmas text_defs = is_space_def is_digit_def digit_val_def lower_def strip_def sep_def dot_def

lemmas pattern_defs = lit_def label_pattern_def search_group_def decimal_def integer_def
  py_int_def py_float_def

lemma parse_stats_example:
  "parse_stats ''GPA: 3.80, GRE Verbal: 165, GRE Quantitative: 168, GRE Analytical Writing: 4.50''
   = \<lparr> gpa = Some (19 / 5), gre_verbal = Some 165, gre_quant = Some 168,
       gre_writing = Some (9 / 2) \<rparr>"
  by (simp add: parse_stats_def text_defs pattern_defs)

lemma row_entry_scenario:
  "row_entry ([''Yale University'', ''Political Science'', ''PhD'', sea, ''Accepted'', c5,
      ''GPA: 3.80, GRE Verbal: 165, GRE Quantitative: 168, GRE Analytical Writing: 4.50''] @ extra)
   = Some \<lparr> gpa = Some (19 / 5), gre_verbal = Some 165, gre_quant = Some 168,
             gre_writing = Some (9 / 2),
             institution = ''Yale University'', program = ''Political Science'', degree = ''PhD'',
             season = strip sea, decision = Some ''Accepted'',
             stats_raw = ''GPA: 3.80, GRE Verbal: 165, GRE Quantitative: 168, GRE Analytical Writing: 4.50'' \<rparr>"
proof -
  have s1: "strip ''Yale University'' = ''Yale University''"
    and s2: "strip ''Political Science'' = ''Political Science''"
    and s3: "strip ''PhD'' = ''PhD''"
    and s4: "strip ''Accepted'' = ''Accepted''"
    and s5: "strip ''GPA: 3.80, GRE Verbal: 165, GRE Quantitative: 168, GRE Analytical Writing: 4.50''
       = ''GPA: 3.80, GRE Verbal: 165, GRE Quantitative: 168, GRE Analytical Writing: 4.50''"
    by (simp_all add: strip_def is_space_def)
  show ?thesis
    unfolding row_entry_def by (simp add: s1 s2 s3 s4 s5 parse_stats_example Let_def)
qed

lemma strip_season: "strip ''F24'' = ''F24''"
  by (simp add: strip_def is_space_def)

lemma scrape_example_1: "scrape_gradcafe_page example_driver 1 = Inr [example_entry]"
  using row_entry_scenario [of "''F24''" "''1 Jan''" "[]"]
  by (simp add: scrape_gradcafe_page_def example_driver_def example_cells_def example_stats_def
      example_entry_def strip_season)

lemma scrape_example_2: "scrape_gradcafe_page example_driver 2 = Inr []"
  by (simp add: scrape_gradcafe_page_def example_driver_def)



section \<open>The pagination loop\<close>

text \<open>
  While the pages yield entries the loop requests them all and appends their entries; at the
  first page without entries it stops, after that request; an exception that leaves the
  scraping of a page leaves the loop, after that request too.
\<close>

lemma scrape_pages_nonempty:
  "\<forall>p\<in>set ps. scrape_gradcafe_page d p = Inr (rows p) \<and> rows p \<noteq> [] \<Longrightarrow>
   scrape_pages d ps (req, acc) = (req @ ps, Inr (acc @ concat (map rows ps)))"
  by (induction ps arbitrary: req acc) simp_all

lemma scrape_pages_stop:
  "\<forall>p\<in>set ps. scrape_gradcafe_page d p = Inr (rows p) \<and> rows p \<noteq> [] \<Longrightarrow>
   scrape_gradcafe_page d k = Inr [] \<Longrightarrow>
   scrape_pages d (ps @ k # qs) (req, acc) = (req @ ps @ [k], Inr (acc @ concat (map rows ps)))"
  by (induction ps arbitrary: req acc) simp_all

lemma scrape_pages_escape:
  "\<forall>p\<in>set ps. scrape_gradcafe_page d p = Inr (rows p) \<and> rows p \<noteq> [] \<Longrightarrow>
   scrape_gradcafe_page d k = Inl err \<Longrightarrow>
   scrape_pages d (ps @ k # qs) (req, acc) = (req @ ps @ [k], Inl err)"
  by (induction ps arbitrary: req acc) simp_all

lemma upto_split_unique:
  "[s..e] = ys @ k # zs \<Longrightarrow> s \<le> k \<and> k \<le> e \<and> ys = [s..k - 1] \<and> zs = [k + 1..e]"
proof -
  assume sp: "[s..e] = ys @ k # zs"
  have "k \<in> set [s..e]" unfolding sp by simp
  then have b: "s \<le> k" "k \<le> e" by simp_all
  have d: "distinct (ys @ k # zs)" using sp distinct_upto [of s e] by simp
  have "ys @ k # zs = [s..k - 1] @ k # [k + 1..e]" using sp upto_split3 [OF b] by simp
  moreover have "k \<notin> set ys" "k \<notin> set zs" using d by simp_all
  ultimately have "ys = [s..k - 1] \<and> zs = [k + 1..e]"
    using append_Cons_eq_iff [of k ys zs "[s..k - 1]" "[k + 1..e]"] by blast
  with b show ?thesis by simp
qed

lemma scrape_all_pages_stop:
  assumes b: "s \<le> k" "k \<le> e"
    and ne: "\<forall>p\<in>{s..<k}. scrape_gradcafe_page d p = Inr (rows p) \<and> rows p \<noteq> []"
    and k: "scrape_gradcafe_page d k = Inr []"
  shows "scrape_all_pages d s e = ([s..k], Inr (concat (map rows [s..k - 1])))"
proof -
  have sp: "[s..e] = [s..k - 1] @ k # [k + 1..e]" using b upto_split3 by simp
  have ne': "\<forall>p\<in>set [s..k - 1]. scrape_gradcafe_page d p = Inr (rows p) \<and> rows p \<noteq> []"
    using ne by simp
  have "[s..k - 1] @ [k] = [s..k]" using b by (simp add: upto_rec2)
  then show ?thesis
    unfolding scrape_all_pages_def sp
    using scrape_pages_stop [OF ne' k, of "[k + 1..e]" "[]" "[]"] by simp
qed

lemma scrape_all_pages_escape:
  assumes b: "s \<le> k" "k \<le> e"
    and ne: "\<forall>p\<in>{s..<k}. scrape_gradcafe_page d p = Inr (rows p) \<and> rows p \<noteq> []"
    and k: "scrape_gradcafe_page d k = Inl err"
  shows "scrape_all_pages d s e = ([s..k], Inl err)"
proof -
  have sp: "[s..e] = [s..k - 1] @ k # [k + 1..e]" using b upto_split3 by simp
  have ne': "\<forall>p\<in>set [s..k - 1]. scrape_gradcafe_page d p = Inr (rows p) \<and> rows p \<noteq> []"
    using ne by simp
  have "[s..k - 1] @ [k] = [s..k]" using b by (simp add: upto_rec2)
  then show ?thesis
    unfolding scrape_all_pages_def sp
    using scrape_pages_escape [OF ne' k, of "[k + 1..e]" "[]" "[]"] by simp
qed

text \<open>
  Every run: the requests are the pages \<open>s\<close> to some \<open>m\<close> not after the bound, and
  every page before \<open>m\<close> had entries.
\<close>

lemma scrape_all_pages_shape:
  "\<exists>m. m \<le> e \<and> fst (scrape_all_pages d s e) = [s..m]
       \<and> (\<forall>p\<in>{s..<m}. \<exists>r. scrape_gradcafe_page d p = Inr r \<and> r \<noteq> [])"
proof (cases "\<exists>k\<in>set [s..e]. \<not> (\<exists>r. scrape_gradcafe_page d k = Inr r \<and> r \<noteq> [])")
  case True
  then obtain ys k zs where sp: "[s..e] = ys @ k # zs"
    and k: "\<not> (\<exists>r. scrape_gradcafe_page d k = Inr r \<and> r \<noteq> [])"
    and ys: "\<forall>y\<in>set ys. \<not> \<not> (\<exists>r. scrape_gradcafe_page d y = Inr r \<and> r \<noteq> [])"
    using split_list_first_prop
      [of "[s..e]" "\<lambda>k. \<not> (\<exists>r. scrape_gradcafe_page d k = Inr r \<and> r \<noteq> [])"]
    by blast
  from upto_split_unique [OF sp] have b: "s \<le> k" "k \<le> e" and yse: "ys = [s..k - 1]"
    by simp_all
  define rows where "rows p = projr (scrape_gradcafe_page d p)" for p
  have ne: "\<forall>p\<in>{s..<k}. scrape_gradcafe_page d p = Inr (rows p) \<and> rows p \<noteq> []"
  proof
    fix p assume "p \<in> {s..<k}"
    then have "p \<in> set ys" unfolding yse by simp
    with ys obtain r where "scrape_gradcafe_page d p = Inr r" "r \<noteq> []" by blast
    then show "scrape_gradcafe_page d p = Inr (rows p) \<and> rows p \<noteq> []"
      by (simp add: rows_def)
  qed
  have "fst (scrape_all_pages d s e) = [s..k]"
  proof (cases "scrape_gradcafe_page d k")
    case (Inl err)
    from scrape_all_pages_escape [OF b ne Inl] show ?thesis by simp
  next
    case (Inr r)
    with k have "scrape_gradcafe_page d k = Inr []" by simp
    from scrape_all_pages_stop [OF b ne this] show ?thesis by simp
  qed
  moreover have "\<forall>p\<in>{s..<k}. \<exists>r. scrape_gradcafe_page d p = Inr r \<and> r \<noteq> []"
    using ne by blast
  ultimately show ?thesis using b(2) by blast
next
  case False
  define rows where "rows p = projr (scrape_gradcafe_page d p)" for p
  have ne: "\<forall>p\<in>set [s..e]. scrape_gradcafe_page d p = Inr (rows p) \<and> rows p \<noteq> []"
  proof
    fix p assume "p \<in> set [s..e]"
    with False obtain r where "scrape_gradcafe_page d p = Inr r" "r \<noteq> []" by blast
    then show "scrape_gradcafe_page d p = Inr (rows p) \<and> rows p \<noteq> []"
      by (simp add: rows_def)
  qed
  have "fst (scrape_all_pages d s e) = [s..e]"
    unfolding scrape_all_pages_def using scrape_pages_nonempty [OF ne, of "[]" "[]"] by simp
  moreover have "\<forall>p\<in>{s..<e}. \<exists>r. scrape_gradcafe_page d p = Inr r \<and> r \<noteq> []"
    using ne by auto
  ultimately show ?thesis by blast
qed

text \<open>
  Claim C1. In every run of the loop from start page \<open>s\<close> with end bound \<open>e\<close> the
  requested pages are \<open>s, s + 1, ...\<close> up to some page not after \<open>e\<close>. If the pages
  \<open>s\<close> to \<open>k - 1\<close> each yield at least one entry (\<open>rows p\<close> are the entries of page
  \<open>p\<close>) and page \<open>k\<close>, not after \<open>e\<close>, yields none, then the requests are exactly
  the pages \<open>s\<close> to \<open>k\<close>, so the loop stops at \<open>k\<close> and requests no later page
  whether or not \<open>k\<close> is the bound, and the result holds exactly the entries of the pages
  \<open>s\<close> to \<open>k - 1\<close> in page order.
\<close>

theorem pagination_stops_at_first_empty_page:
  "(\<exists>m\<le>e. fst (scrape_all_pages driver s e) = [s..m]) \<and>
   (s \<le> k \<and> k \<le> e
      \<and> (\<forall>p\<in>{s..<k}. scrape_gradcafe_page driver p = Inr (rows p) \<and> rows p \<noteq> [])
      \<and> scrape_gradcafe_page driver k = Inr [] \<longrightarrow>
    scrape_all_pages driver s e = ([s..k], Inr (concat (map rows [s..k - 1]))))"
proof (intro conjI impI)
  show "\<exists>m\<le>e. fst (scrape_all_pages driver s e) = [s..m]"
    using scrape_all_pages_shape [of e driver s] by blast
next
  assume h: "s \<le> k \<and> k \<le> e
      \<and> (\<forall>p\<in>{s..<k}. scrape_gradcafe_page driver p = Inr (rows p) \<and> rows p \<noteq> [])
      \<and> scrape_gradcafe_page driver k = Inr []"
  then show "scrape_all_pages driver s e = ([s..k], Inr (concat (map rows [s..k - 1])))"
    by (elim conjE) (rule scrape_all_pages_stop)
qed

theorem pagination_stops_at_first_empty_page_witness:
  "(1::int) \<le> 2 \<and> (2::int) \<le> 170
   \<and> scrape_gradcafe_page example_driver 1 = Inr [example_entry] \<and> [example_entry] \<noteq> []
   \<and> scrape_gradcafe_page example_driver 2 = Inr []
   \<and> scrape_all_pages example_driver 1 170 = ([1, 2], Inr [example_entry])"
proof -
  have a: "\<forall>p\<in>{1..<2::int}. scrape_gradcafe_page example_driver p = Inr [example_entry]
      \<and> [example_entry] \<noteq> []"
  proof
    fix p :: int assume "p \<in> {1..<2}"
    then have "p = 1" by simp
    then show "scrape_gradcafe_page example_driver p = Inr [example_entry]
        \<and> [example_entry] \<noteq> []"
      using scrape_example_1 by simp
  qed
  have u: "[1..2::int] = [1, 2]" "[1..1::int] = [1]" by (simp_all add: upto_rec1)
  have "scrape_all_pages example_driver 1 170 =
      ([1..2], Inr (concat (map (\<lambda>p. [example_entry]) [1..2 - 1])))"
    using pagination_stops_at_first_empty_page [of 170 example_driver 1 2 "\<lambda>p. [example_entry]"]
      a scrape_example_2
    by simp
  then have "scrape_all_pages example_driver 1 170 = ([1, 2], Inr [example_entry])"
    by (simp add: u)
  with scrape_example_1 scrape_example_2 show ?thesis by simp
qed

section \<open>The end-to-end scenario\<close>

lemma clean_decision_Accepted: "clean_decision (Some ''Accepted'') = Some ''Accept''"
  by (simp add: clean_decision_def series_map_def decision_mapping_def fillna_def)

lemma process_data_scenario:
  "process_data copy_on_write
       (Some [\<lparr> gpa = Some (19 / 5), gre_verbal = Some 165, gre_quant = Some 168,
             gre_writing = Some (9 / 2),
             institution = i, program = p, degree = d,
             season = s, decision = Some ''Accepted'',
             stats_raw = raw \<rparr>]) =
   Some [\<lparr> gpa = Some (19 / 5), gre_verbal = Some 165, gre_quant = Some 168,
             gre_writing = Some (9 / 2),
             institution = i, program = p, degree = d,
             season = s, decision = Some ''Accept'',
             stats_raw = raw \<rparr>]"
  by (simp add: process_data_def clean_decision_Accepted fillna_inplace_def fillna_def Let_def)

text \<open>
  Claim C2. Page 1 holds the header row, which the source skips, and one row of at least
  seven cells with institution \<^verbatim>\<open>Yale University\<close>, program
  \<^verbatim>\<open>Political Science\<close>, degree \<^verbatim>\<open>PhD\<close>, decision \<^verbatim>\<open>Accepted\<close> and the
  statistics cell of the specification; page 2 holds no row below its header. With start
  page 1 and any end bound of at least 2 the Collector writes a table of exactly one row,
  with decision \<^verbatim>\<open>Accept\<close>, gpa 3.80, gre_verbal 165, gre_quant 168 and gre_writing
  4.50, and it requests the pages 1 and 2 and no other, with or without copy-on-write.
\<close>

theorem end_to_end_scenario:
  assumes p1: "driver 1 = Table [hdr,
       [''Yale University'', ''Political Science'', ''PhD'', sea, ''Accepted'', c5,
        ''GPA: 3.80, GRE Verbal: 165, GRE Quantitative: 168, GRE Analytical Writing: 4.50'']
       @ extra]"
    and p2: "driver 2 = Table trs" "length trs \<le> 1"
    and e: "2 \<le> e"
  shows "collect copy_on_write driver 1 e =
     ([1, 2],
      Inr (Some [\<lparr> gpa = Some (19 / 5), gre_verbal = Some 165, gre_quant = Some 168,
              gre_writing = Some (9 / 2),
              institution = ''Yale University'', program = ''Political Science'',
              degree = ''PhD'', season = strip sea, decision = Some ''Accept'',
              stats_raw = ''GPA: 3.80, GRE Verbal: 165, GRE Quantitative: 168, GRE Analytical Writing: 4.50'' \<rparr>]))"
proof -
  let ?raw = "''GPA: 3.80, GRE Verbal: 165, GRE Quantitative: 168, GRE Analytical Writing: 4.50''"
  let ?row = "\<lparr> gpa = Some (19 / 5), gre_verbal = Some 165, gre_quant = Some 168,
              gre_writing = Some (9 / 2),
              institution = ''Yale University'', program = ''Political Science'',
              degree = ''PhD'', season = strip sea, decision = Some ''Accepted'',
              stats_raw = ?raw \<rparr>"
  have s1: "scrape_gradcafe_page driver 1 = Inr [?row]"
    using row_entry_scenario [of sea c5 extra] by (simp add: scrape_gradcafe_page_def p1)
  have s2: "scrape_gradcafe_page driver 2 = Inr []"
    using p2 by (simp add: scrape_gradcafe_page_def)
  have u: "[1..e] = [1] @ 2 # [3..e]" using e by (simp add: upto_rec1)
  have "scrape_all_pages driver 1 e = ([1, 2], Inr [?row])"
    unfolding scrape_all_pages_def u
    using scrape_pages_stop [of "[1]" driver "\<lambda>p. [?row]" 2 "[3..e]" "[]" "[]"] s1 s2 by simp
  then show ?thesis
    by (simp add: collect_def process_data_scenario)
qed

theorem end_to_end_scenario_witness:
  "collect False example_driver 1 170 =
     ([1, 2],
      Inr (Some [\<lparr> gpa = Some (19 / 5), gre_verbal = Some 165, gre_quant = Some 168,
              gre_writing = Some (9 / 2),
              institution = ''Yale University'', program = ''Political Science'',
              degree = ''PhD'', season = ''F24'', decision = Some ''Accept'',
              stats_raw = ''GPA: 3.80, GRE Verbal: 165, GRE Quantitative: 168, GRE Analytical Writing: 4.50'' \<rparr>]))
   \<and> collect True example_driver 1 170 = collect False example_driver 1 170"
proof -
  have p1: "example_driver 1 = Table [example_header,
       [''Yale University'', ''Political Science'', ''PhD'', ''F24'', ''Accepted'', ''1 Jan'',
        ''GPA: 3.80, GRE Verbal: 165, GRE Quantitative: 168, GRE Analytical Writing: 4.50'']
       @ []]"
    by (simp add: example_driver_def example_cells_def example_stats_def)
  have p2: "example_driver 2 = Table [example_header]" "length [example_header] \<le> 1"
    by (simp_all add: example_driver_def)
  have e: "(2::int) \<le> 170" by simp
  show ?thesis
    using end_to_end_scenario [OF p1 p2 e, of False] end_to_end_scenario [OF p1 p2 e, of True]
      strip_season
    by simp
qed

section \<open>Normalization\<close>

text \<open>On a table with at least one row \<^verbatim>\<open>process_data\<close> works row by row.\<close>

lemma process_data_rows:
  "rows \<noteq> [] \<Longrightarrow>
   process_data copy_on_write (Some rows) = Some (map (impute copy_on_write rows) rows)"
  by (simp add: process_data_def Let_def o_def impute_def)

lemma impute_fields:
  "gpa (impute cow rows r) = fillna_inplace cow (mean (map gpa rows)) (gpa r)"
  "gre_verbal (impute cow rows r) =
     fillna_inplace cow (median (map gre_verbal rows)) (gre_verbal r)"
  "gre_quant (impute cow rows r) = fillna_inplace cow (median (map gre_quant rows)) (gre_quant r)"
  "gre_writing (impute cow rows r) =
     fillna_inplace cow (median (map gre_writing rows)) (gre_writing r)"
  "decision (impute cow rows r) = clean_decision (decision r)"
  "institution (impute cow rows r) = institution r"
  "program (impute cow rows r) = program r"
  "degree (impute cow rows r) = degree r"
  "season (impute cow rows r) = season r"
  "stats_raw (impute cow rows r) = stats_raw r"
  by (simp_all add: impute_def)

lemma fillna_Some: "fillna v (Some x) = Some x"
  by (simp add: fillna_def)

lemma fillna_None: "fillna v None = v"
  by (simp add: fillna_def)

lemma fillna_inplace_Some: "fillna_inplace cow v (Some x) = Some x"
  by (simp add: fillna_inplace_def fillna_def)

lemma fillna_inplace_missing: "fillna_inplace cow None x = x"
  by (cases x) (simp_all add: fillna_inplace_def fillna_def)

lemma fillna_inplace_copy: "fillna_inplace True v x = x"
  by (simp add: fillna_inplace_def)

lemma present_all_missing: "\<forall>x\<in>set col. x = None \<Longrightarrow> present col = []"
  by (induction col) (simp_all add: present_def List.map_filter_simps)

lemma mean_all_missing: "\<forall>x\<in>set col. x = None \<Longrightarrow> mean col = None"
  by (induction col) (simp_all add: mean_def present_def List.map_filter_simps)

lemma median_all_missing: "\<forall>x\<in>set col. x = None \<Longrightarrow> median col = None"
  by (simp add: median_def present_all_missing)

lemma clean_decision_table:
  "clean_decision (Some ''Accepted'') = Some ''Accept''"
  "clean_decision (Some ''Rejected'') = Some ''Reject''"
  "clean_decision (Some ''Wait Listed'') = Some ''Waitlist''"
  "clean_decision (Some ''Interview'') = Some ''Other''"
  "clean_decision (Some ''Other'') = Some ''Other''"
  by (simp_all add: clean_decision_def series_map_def decision_mapping_def fillna_def)

lemma clean_decision_unmapped:
  "d \<notin> Some ` {''Accepted'', ''Rejected'', ''Wait Listed'', ''Interview'', ''Other''} \<Longrightarrow>
   clean_decision d = Some ''Unknown''"
  by (cases d) (auto simp add: clean_decision_def series_map_def decision_mapping_def fillna_def)

lemma clean_decision_range:
  "clean_decision d \<in> Some ` {''Accept'', ''Reject'', ''Waitlist'', ''Other'', ''Unknown''}"
  by (cases d) (auto simp add: clean_decision_def series_map_def decision_mapping_def fillna_def)

lemma clean_decision_fixed:
  "clean_decision d = d \<longleftrightarrow> d = Some ''Other'' \<or> d = Some ''Unknown''"
  by (cases d) (auto simp add: clean_decision_def series_map_def decision_mapping_def fillna_def)

text \<open>
  Claim C4. Decision normalization is a function of the raw value alone. Each of the five
  labels of the mapping table goes to its category among \<^verbatim>\<open>Accept\<close>,
  \<^verbatim>\<open>Reject\<close>, \<^verbatim>\<open>Waitlist\<close> and \<^verbatim>\<open>Other\<close>; every other value, the missing
  value included, goes to \<^verbatim>\<open>Unknown\<close>; the result is always one of these five
  labels; and normalizing a table keeps every row, replacing each decision by its
  normalized value, with or without copy-on-write.
\<close>

theorem decision_normalization_total:
  "clean_decision (Some ''Accepted'') = Some ''Accept''
   \<and> clean_decision (Some ''Rejected'') = Some ''Reject''
   \<and> clean_decision (Some ''Wait Listed'') = Some ''Waitlist''
   \<and> clean_decision (Some ''Interview'') = Some ''Other''
   \<and> clean_decision (Some ''Other'') = Some ''Other''
   \<and> clean_decision None = Some ''Unknown''
   \<and> (d \<notin> Some ` {''Accepted'', ''Rejected'', ''Wait Listed'', ''Interview'', ''Other''} \<longrightarrow>
        clean_decision d = Some ''Unknown'')
   \<and> clean_decision d \<in> Some ` {''Accept'', ''Reject'', ''Waitlist'', ''Other'', ''Unknown''}
   \<and> (rows \<noteq> [] \<longrightarrow>
        (\<exists>out. process_data copy_on_write (Some rows) = Some out \<and> length out = length rows
           \<and> map decision out = map (\<lambda>r. clean_decision (decision r)) rows))"
proof -
  have "clean_decision None = Some ''Unknown''"
    using clean_decision_unmapped [of None] by auto
  moreover have "rows \<noteq> [] \<longrightarrow>
        (\<exists>out. process_data copy_on_write (Some rows) = Some out \<and> length out = length rows
           \<and> map decision out = map (\<lambda>r. clean_decision (decision r)) rows)"
    by (simp add: process_data_rows impute_fields o_def)
  ultimately show ?thesis
    using clean_decision_table clean_decision_unmapped [of d] clean_decision_range [of d]
    by blast
qed

theorem decision_normalization_total_witness:
  "clean_decision (Some ''Pending'') = Some ''Unknown''
   \<and> (\<exists>out. process_data False (Some example_raw_table) = Some out \<and> length out = 3
        \<and> map decision out = [Some ''Accept'', Some ''Other'', Some ''Unknown''])
   \<and> (\<exists>out. process_data True (Some example_raw_table) = Some out \<and> length out = 3
        \<and> map decision out = [Some ''Accept'', Some ''Other'', Some ''Unknown''])"
proof -
  have n: "Some ''Pending'' \<notin> Some ` {''Accepted'', ''Rejected'', ''Wait Listed'', ''Interview'', ''Other''}"
    by simp
  have ne: "example_raw_table \<noteq> []" by (simp add: example_raw_table_def)
  have l: "length example_raw_table = 3"
    and m: "map decision example_raw_table = [Some ''Accepted'', Some ''Interview'', Some ''Pending'']"
    by (simp_all add: example_raw_table_def)
  from decision_normalization_total [of "Some ''Pending''" example_raw_table False] n ne
  have u: "clean_decision (Some ''Pending'') = Some ''Unknown''"
    and a: "clean_decision (Some ''Accepted'') = Some ''Accept''"
    and i: "clean_decision (Some ''Interview'') = Some ''Other''"
    and ex: "\<exists>out. process_data False (Some example_raw_table) = Some out
        \<and> length out = length example_raw_table
        \<and> map decision out = map (\<lambda>r. clean_decision (decision r)) example_raw_table"
    by blast+
  from decision_normalization_total [of "Some ''Pending''" example_raw_table True] ne
  have ex': "\<exists>out. process_data True (Some example_raw_table) = Some out
        \<and> length out = length example_raw_table
        \<and> map decision out = map (\<lambda>r. clean_decision (decision r)) example_raw_table"
    by blast
  have "map (\<lambda>r. clean_decision (decision r)) example_raw_table
      = map clean_decision (map decision example_raw_table)" by (simp add: o_def)
  then have c: "map (\<lambda>r. clean_decision (decision r)) example_raw_table
      = [Some ''Accept'', Some ''Other'', Some ''Unknown'']" by (simp add: m u a i)
  from ex have 1: "\<exists>out. process_data False (Some example_raw_table) = Some out \<and> length out = 3
        \<and> map decision out = [Some ''Accept'', Some ''Other'', Some ''Unknown'']"
    unfolding c l .
  from ex' have 2: "\<exists>out. process_data True (Some example_raw_table) = Some out \<and> length out = 3
        \<and> map decision out = [Some ''Accept'', Some ''Other'', Some ''Unknown'']"
    unfolding c l .
  from u 1 2 show ?thesis by (intro conjI)
qed

text \<open>
  In a pandas without copy-on-write the normalization replaces every missing gpa by the mean
  of the gpa column, and every missing gre_verbal, gre_quant and gre_writing by the median of
  its column, each statistic taken over the whole table handed to the normalization; a
  value that is present is left as it is. (The statistic of a column without any value is
  itself missing.)
\<close>

lemma imputation_without_copy_on_write:
  assumes "rows \<noteq> []"
  shows "\<exists>out. process_data False (Some rows) = Some out \<and> length out = length rows \<and>
     (\<forall>i<length rows.
        gpa (out ! i) = (case gpa (rows ! i) of None \<Rightarrow> mean (map gpa rows) | Some v \<Rightarrow> Some v)
      \<and> gre_verbal (out ! i) =
          (case gre_verbal (rows ! i) of None \<Rightarrow> median (map gre_verbal rows) | Some v \<Rightarrow> Some v)
      \<and> gre_quant (out ! i) =
          (case gre_quant (rows ! i) of None \<Rightarrow> median (map gre_quant rows) | Some v \<Rightarrow> Some v)
      \<and> gre_writing (out ! i) =
          (case gre_writing (rows ! i) of None \<Rightarrow> median (map gre_writing rows) | Some v \<Rightarrow> Some v))"
  using assms by (simp add: process_data_rows impute_fields fillna_inplace_def fillna_def)

text \<open>
  Under copy-on-write the four fills do not reach the table: the normalization returns it
  with its decisions normalized and every other column as it was.
\<close>

lemma no_imputation_under_copy_on_write:
  assumes "rows \<noteq> []"
  shows "process_data True (Some rows) =
           Some (map (\<lambda>r. r\<lparr>decision := clean_decision (decision r)\<rparr>) rows)"
  using assms by (simp add: process_data_rows impute_def fillna_inplace_copy)

lemma example_raw_columns:
  "mean (map gpa example_raw_table) = Some (15 / 4)"
  "median (map gre_verbal example_raw_table) = Some 165"
  "median (map gre_quant example_raw_table) = Some 160"
  "median (map gre_writing example_raw_table) = Some (9 / 2)"
  by (simp_all add: example_raw_table_def mean_def median_def present_def List.map_filter_simps)

lemma example_raw_second_row:
  "gpa (example_raw_table ! Suc 0) = None" "gre_verbal (example_raw_table ! Suc 0) = None"
  "gre_quant (example_raw_table ! Suc 0) = None" "gre_writing (example_raw_table ! Suc 0) = None"
  by (simp_all add: example_raw_table_def)

text \<open>
  Claim C5 says that the normalization replaces every missing gpa by the mean of the gpa
  column and every missing GRE value by the median of its column. The source attempts it
  with \<^verbatim>\<open>df[col].fillna(value, inplace=True)\<close> and assigns nothing back to the frame.
  On the three-row table \<open>example_raw_table\<close>, whose second row has no statistics, the
  column statistics are 15/4, 165, 160 and 9/2. Without copy-on-write the second row of the
  output holds them. Under copy-on-write the four values of that row are still missing in
  the output, which is the input with its decisions normalized.
\<close>

theorem imputation_lost_under_copy_on_write:
  "mean (map gpa example_raw_table) = Some (15 / 4)
   \<and> median (map gre_verbal example_raw_table) = Some 165
   \<and> median (map gre_quant example_raw_table) = Some 160
   \<and> median (map gre_writing example_raw_table) = Some (9 / 2)
   \<and> gpa (example_raw_table ! 1) = None
   \<and> (\<exists>out. process_data False (Some example_raw_table) = Some out \<and> length out = 3
        \<and> gpa (out ! 1) = Some (15 / 4) \<and> gre_verbal (out ! 1) = Some 165
        \<and> gre_quant (out ! 1) = Some 160 \<and> gre_writing (out ! 1) = Some (9 / 2))
   \<and> (\<exists>out. process_data True (Some example_raw_table) = Some out \<and> length out = 3
        \<and> gpa (out ! 1) = None \<and> gre_verbal (out ! 1) = None
        \<and> gre_quant (out ! 1) = None \<and> gre_writing (out ! 1) = None)
   \<and> process_data True (Some example_raw_table) =
       Some (map (\<lambda>r. r\<lparr>decision := clean_decision (decision r)\<rparr>) example_raw_table)"
proof -
  have ne: "example_raw_table \<noteq> []" by (simp add: example_raw_table_def)
  have l: "length example_raw_table = 3" by (simp add: example_raw_table_def)
  have i: "Suc 0 < length example_raw_table" by (simp add: l)
  have legacy: "\<exists>out. process_data False (Some example_raw_table) = Some out \<and> length out = 3
        \<and> gpa (out ! 1) = Some (15 / 4) \<and> gre_verbal (out ! 1) = Some 165
        \<and> gre_quant (out ! 1) = Some 160 \<and> gre_writing (out ! 1) = Some (9 / 2)"
    using i
    by (simp add: process_data_rows [OF ne] l impute_fields example_raw_second_row
        example_raw_columns fillna_inplace_def fillna_None)
  have cow: "\<exists>out. process_data True (Some example_raw_table) = Some out \<and> length out = 3
        \<and> gpa (out ! 1) = None \<and> gre_verbal (out ! 1) = None
        \<and> gre_quant (out ! 1) = None \<and> gre_writing (out ! 1) = None"
    using i
    by (simp add: process_data_rows [OF ne] l impute_fields example_raw_second_row
        fillna_inplace_copy)
  have g: "gpa (example_raw_table ! 1) = None" using example_raw_second_row(1) by simp
  from example_raw_columns g legacy cow no_imputation_under_copy_on_write [OF ne]
  show ?thesis by (intro conjI)
qed

text \<open>
  Claim C10. If every value of one of the four numeric columns is missing, every value of
  that column is still missing after the normalization, with or without copy-on-write: the
  output table need not be fully populated.
\<close>

theorem all_missing_column_stays_missing:
  assumes "rows \<noteq> []"
  shows "\<exists>out. process_data copy_on_write (Some rows) = Some out \<and> length out = length rows
     \<and> ((\<forall>r\<in>set rows. gpa r = None) \<longrightarrow> (\<forall>r\<in>set out. gpa r = None))
     \<and> ((\<forall>r\<in>set rows. gre_verbal r = None) \<longrightarrow> (\<forall>r\<in>set out. gre_verbal r = None))
     \<and> ((\<forall>r\<in>set rows. gre_quant r = None) \<longrightarrow> (\<forall>r\<in>set out. gre_quant r = None))
     \<and> ((\<forall>r\<in>set rows. gre_writing r = None) \<longrightarrow> (\<forall>r\<in>set out. gre_writing r = None))"
  using assms
  by (simp add: process_data_rows impute_fields mean_all_missing median_all_missing
      fillna_inplace_missing)

theorem all_missing_column_stays_missing_witness:
  "(\<exists>out. process_data False (Some example_no_gpa) = Some out \<and> length out = 2
     \<and> list_all (\<lambda>r. gpa r = None) out \<and> list_all (\<lambda>r. gre_quant r = None) out
     \<and> list_all (\<lambda>r. gre_writing r = None) out)
   \<and> (\<exists>out. process_data True (Some example_no_gpa) = Some out \<and> length out = 2
     \<and> list_all (\<lambda>r. gpa r = None) out \<and> list_all (\<lambda>r. gre_quant r = None) out
     \<and> list_all (\<lambda>r. gre_writing r = None) out)"
proof -
  have ne: "example_no_gpa \<noteq> []" by (simp add: example_no_gpa_def)
  have l: "length example_no_gpa = 2" by (simp add: example_no_gpa_def)
  have m: "\<forall>r\<in>set example_no_gpa. gpa r = None" "\<forall>r\<in>set example_no_gpa. gre_quant r = None"
    "\<forall>r\<in>set example_no_gpa. gre_writing r = None"
    by (simp_all add: example_no_gpa_def)
  have "\<exists>out. process_data cow (Some example_no_gpa) = Some out \<and> length out = 2
     \<and> list_all (\<lambda>r. gpa r = None) out \<and> list_all (\<lambda>r. gre_quant r = None) out
     \<and> list_all (\<lambda>r. gre_writing r = None) out" for cow
  proof -
    from all_missing_column_stays_missing [OF ne, of cow] m l obtain out where
      p: "process_data cow (Some example_no_gpa) = Some out" and lo: "length out = 2"
      and g: "\<forall>r\<in>set out. gpa r = None" "\<forall>r\<in>set out. gre_quant r = None"
        "\<forall>r\<in>set out. gre_writing r = None"
      by auto
    show ?thesis using p lo g by (auto simp add: list_all_iff)
  qed
  then show ?thesis by blast
qed

lemma impute_populated:
  assumes "gpa r \<noteq> None" "gre_verbal r \<noteq> None" "gre_quant r \<noteq> None" "gre_writing r \<noteq> None"
  shows "impute cow rows r = r\<lparr>decision := clean_decision (decision r)\<rparr>"
  using assms by (auto simp add: impute_def fillna_inplace_Some)

lemma decision_update_same:
  "(r\<lparr>decision := d\<rparr> = r) = (d = decision (r::entry))"
  by (cases r) auto

text \<open>
  Claim C6 states that normalizing a fully populated table with canonical decisions changes
  nothing. It fails on the output of the scenario, with or without copy-on-write:
  \<^verbatim>\<open>Accept\<close> is not a key of the mapping table, so a second normalization turns it into
  \<^verbatim>\<open>Unknown\<close>.
\<close>

theorem renormalization_counterexample:
  "fully_populated example_normalized \<and> canonical_decisions example_normalized
   \<and> process_data False (Some example_normalized) \<noteq> Some example_normalized
   \<and> process_data True (Some example_normalized) \<noteq> Some example_normalized"
proof -
  have ne: "example_normalized \<noteq> []" by (simp add: example_normalized_def)
  have u: "clean_decision (Some ''Accept'') = Some ''Unknown''"
    using clean_decision_unmapped [of "Some ''Accept''"] by simp
  have d: "map decision example_normalized = [Some ''Accept'']"
    by (simp add: example_normalized_def)
  have "map (impute cow example_normalized) example_normalized \<noteq> example_normalized" for cow
  proof -
    have "map decision (map (impute cow example_normalized) example_normalized)
        = [Some ''Unknown'']"
      by (simp add: example_normalized_def impute_fields u)
    with d have "map decision (map (impute cow example_normalized) example_normalized)
        \<noteq> map decision example_normalized"
      by simp
    then show ?thesis by metis
  qed
  then have "process_data False (Some example_normalized) \<noteq> Some example_normalized"
    and "process_data True (Some example_normalized) \<noteq> Some example_normalized"
    by (simp_all add: process_data_rows [OF ne])
  moreover have "fully_populated example_normalized"
    by (simp add: fully_populated_def example_normalized_def del: not_None_eq)
  moreover have "canonical_decisions example_normalized"
    by (simp add: canonical_decisions_def example_normalized_def)
  ultimately show ?thesis by (intro conjI)
qed

text \<open>
  Claim C6, amended. Normalizing a table that has at least one row and no missing numeric
  value changes nothing but the decisions, each of which is normalized once more; the table
  comes back unchanged exactly when every decision is \<^verbatim>\<open>Other\<close> or
  \<^verbatim>\<open>Unknown\<close>, the two labels the normalization maps to themselves.
\<close>

theorem renormalization_of_populated_table:
  assumes "rows \<noteq> []" and "fully_populated rows"
  shows "process_data copy_on_write (Some rows) =
           Some (map (\<lambda>r. r\<lparr>decision := clean_decision (decision r)\<rparr>) rows)
     \<and> (process_data copy_on_write (Some rows) = Some rows \<longleftrightarrow>
          list_all (\<lambda>r. decision r = Some ''Other'' \<or> decision r = Some ''Unknown'') rows)"
proof -
  have m: "map (impute copy_on_write rows) rows =
      map (\<lambda>r. r\<lparr>decision := clean_decision (decision r)\<rparr>) rows"
    using assms(2) by (auto simp add: fully_populated_def list_all_iff intro!: impute_populated)
  have "(map (\<lambda>r. r\<lparr>decision := clean_decision (decision r)\<rparr>) rows = rows) =
        (\<forall>r\<in>set rows. r\<lparr>decision := clean_decision (decision r)\<rparr> = r)"
    by (simp add: map_idI map_eq_conv [of _ rows id, simplified])
  then have "(map (\<lambda>r. r\<lparr>decision := clean_decision (decision r)\<rparr>) rows = rows) =
        list_all (\<lambda>r. decision r = Some ''Other'' \<or> decision r = Some ''Unknown'') rows"
    by (simp add: decision_update_same clean_decision_fixed list_all_iff)
  then show ?thesis
    by (simp add: process_data_rows [OF assms(1)] m)
qed

theorem renormalization_of_populated_table_witness:
  "process_data False (Some example_fixed) = Some example_fixed
   \<and> process_data True (Some example_fixed) = Some example_fixed
   \<and> process_data False (Some example_normalized) =
       Some (map (\<lambda>r. r\<lparr>decision := Some ''Unknown''\<rparr>) example_normalized)
   \<and> process_data True (Some example_normalized) =
       Some (map (\<lambda>r. r\<lparr>decision := Some ''Unknown''\<rparr>) example_normalized)"
proof -
  have ne: "example_fixed \<noteq> []" "example_normalized \<noteq> []"
    by (simp_all add: example_fixed_def example_normalized_def)
  have fp: "fully_populated example_fixed" "fully_populated example_normalized"
    by (simp_all add: fully_populated_def example_fixed_def example_normalized_def
        del: not_None_eq)
  have u: "clean_decision (Some ''Accept'') = Some ''Unknown''"
    using clean_decision_unmapped [of "Some ''Accept''"] by simp
  have a: "list_all (\<lambda>r. decision r = Some ''Other'' \<or> decision r = Some ''Unknown'') example_fixed"
    by (simp add: example_fixed_def)
  have b: "map (\<lambda>r. r\<lparr>decision := clean_decision (decision r)\<rparr>) example_normalized
     = map (\<lambda>r. r\<lparr>decision := Some ''Unknown''\<rparr>) example_normalized"
    by (simp add: example_normalized_def u)
  from renormalization_of_populated_table [OF ne(1) fp(1), of False] a
  have 1: "process_data False (Some example_fixed) = Some example_fixed" by blast
  from renormalization_of_populated_table [OF ne(1) fp(1), of True] a
  have 2: "process_data True (Some example_fixed) = Some example_fixed" by blast
  from renormalization_of_populated_table [OF ne(2) fp(2), of False]
  have 3: "process_data False (Some example_normalized) =
      Some (map (\<lambda>r. r\<lparr>decision := clean_decision (decision r)\<rparr>) example_normalized)"
    by blast
  from renormalization_of_populated_table [OF ne(2) fp(2), of True]
  have 4: "process_data True (Some example_normalized) =
      Some (map (\<lambda>r. r\<lparr>decision := clean_decision (decision r)\<rparr>) example_normalized)"
    by blast
  from 1 2 3 4 show ?thesis unfolding b by (intro conjI)
qed

section \<open>A page that raises\<close>

text \<open>
  The loop sees the session only through what the scraping of each page returns or raises,
  and a requested page without entries is the last request.
\<close>

lemma scrape_pages_cong:
  "\<forall>p\<in>set ps. scrape_gradcafe_page d p = scrape_gradcafe_page d' p \<Longrightarrow>
   scrape_pages d ps st = scrape_pages d' ps st"
proof (induction ps arbitrary: st)
  case Nil
  then show ?case by (cases st) simp
next
  case (Cons p ps)
  then show ?case by (cases st) (simp split: sum.splits)
qed

lemma scrape_all_pages_cong:
  "\<forall>p. scrape_gradcafe_page d p = scrape_gradcafe_page d' p \<Longrightarrow>
   scrape_all_pages d s e = scrape_all_pages d' s e"
  unfolding scrape_all_pages_def by (rule scrape_pages_cong) simp

lemma scrape_raises_saved: "driver k = Raises Saved \<Longrightarrow> scrape_gradcafe_page driver k = Inr []"
  by (simp add: scrape_gradcafe_page_def error_handler_def)

lemma scrape_raises_unsaved:
  "driver k = Raises Snapshot_raises \<Longrightarrow> scrape_gradcafe_page driver k = Inl Uncaught"
  by (simp add: scrape_gradcafe_page_def error_handler_def)

lemma scrape_other_page:
  "p \<noteq> k \<Longrightarrow> scrape_gradcafe_page (driver(k := pg)) p = scrape_gradcafe_page driver p"
  by (simp add: scrape_gradcafe_page_def)

lemma requested_page_without_entries_is_last:
  assumes k: "scrape_gradcafe_page d k = Inr []"
    and r: "k \<in> set (fst (scrape_all_pages d s e))"
  shows "\<exists>rows. (\<forall>p\<in>{s..<k}. scrape_gradcafe_page d p = Inr (rows p) \<and> rows p \<noteq> [])
     \<and> scrape_all_pages d s e = ([s..k], Inr (concat (map rows [s..k - 1])))"
proof -
  from scrape_all_pages_shape [of e d s] obtain m where
    m: "m \<le> e" "fst (scrape_all_pages d s e) = [s..m]"
    and ne: "\<forall>p\<in>{s..<m}. \<exists>r. scrape_gradcafe_page d p = Inr r \<and> r \<noteq> []"
    by blast
  from r m have b: "s \<le> k" "k \<le> m" by simp_all
  have "\<not> k < m"
  proof
    assume "k < m"
    with b have "k \<in> {s..<m}" by simp
    with ne obtain r where "scrape_gradcafe_page d k = Inr r" "r \<noteq> []" by blast
    with k show False by simp
  qed
  with b have km: "k = m" by simp
  define rows where "rows p = projr (scrape_gradcafe_page d p)" for p
  have ne': "\<forall>p\<in>{s..<k}. scrape_gradcafe_page d p = Inr (rows p) \<and> rows p \<noteq> []"
  proof
    fix p assume "p \<in> {s..<k}"
    with ne km obtain r where "scrape_gradcafe_page d p = Inr r" "r \<noteq> []" by blast
    then show "scrape_gradcafe_page d p = Inr (rows p) \<and> rows p \<noteq> []"
      by (simp add: rows_def)
  qed
  have ke: "k \<le> e" using km m(1) by simp
  from scrape_all_pages_stop [OF b(1) ke ne' k] ne' show ?thesis by blast
qed

text \<open>
  When the snapshot of the handler is saved, a page on which an exception is raised yields
  no entry: the exception is caught and the page counts as an empty page. If the loop
  requests that page it stops there, the result holding the entries of the pages before it
  only. The outcome, requests and table, is the one of the run in which that page is
  replaced by any page \<open>pg\<close> that yields no entry without an error (a table with no kept
  row, or no table and its snapshot saved).
\<close>

lemma caught_exception_ends_pagination:
  assumes "driver k = Raises Saved"
    and "scrape_gradcafe_page (driver(k := pg)) k = Inr []"
  shows "scrape_gradcafe_page driver k = Inr []
     \<and> (k \<in> set (fst (scrape_all_pages driver s e)) \<longrightarrow>
          (\<exists>rows. (\<forall>p\<in>{s..<k}. scrape_gradcafe_page driver p = Inr (rows p) \<and> rows p \<noteq> [])
             \<and> scrape_all_pages driver s e = ([s..k], Inr (concat (map rows [s..k - 1])))))
     \<and> scrape_all_pages driver s e = scrape_all_pages (driver(k := pg)) s e"
proof -
  have z: "scrape_gradcafe_page driver k = Inr []" using assms(1) by (rule scrape_raises_saved)
  have "\<forall>p. scrape_gradcafe_page driver p = scrape_gradcafe_page (driver(k := pg)) p"
  proof
    fix p show "scrape_gradcafe_page driver p = scrape_gradcafe_page (driver(k := pg)) p"
      using z assms(2) scrape_other_page [of p k driver pg] by (cases "p = k") simp_all
  qed
  then have "scrape_all_pages driver s e = scrape_all_pages (driver(k := pg)) s e"
    by (rule scrape_all_pages_cong)
  with z requested_page_without_entries_is_last [OF z] show ?thesis by blast
qed

lemma caught_exception_example:
  "scrape_gradcafe_page example_raising_driver 2 = Inr []
   \<and> scrape_all_pages example_raising_driver 1 170 = ([1, 2], Inr [example_entry])
   \<and> scrape_all_pages example_raising_driver 1 170 = scrape_all_pages example_driver 1 170"
proof -
  have r: "example_raising_driver 2 = Raises Saved" by (simp add: example_raising_driver_def)
  have d: "example_raising_driver(2 := Table [example_header]) = example_driver"
    by (rule ext) (simp add: example_raising_driver_def example_driver_def)
  have z: "scrape_gradcafe_page (example_raising_driver(2 := Table [example_header])) 2 = Inr []"
    by (simp add: scrape_gradcafe_page_def)
  have u: "[1..2::int] = [1, 2]" "[1..1::int] = [1]" by (simp_all add: upto_rec1)
  have b: "(1::int) \<le> 2" "(2::int) \<le> 170" by simp_all
  have ne: "\<forall>p\<in>{1..<2::int}. scrape_gradcafe_page example_driver p = Inr [example_entry]
      \<and> [example_entry] \<noteq> []"
  proof
    fix p :: int assume "p \<in> {1..<2}"
    then have "p = 1" by simp
    then show "scrape_gradcafe_page example_driver p = Inr [example_entry]
        \<and> [example_entry] \<noteq> []"
      using scrape_example_1 by simp
  qed
  have "scrape_all_pages example_driver 1 170 =
      ([1..2], Inr (concat (map (\<lambda>p. [example_entry]) [1..2 - 1])))"
    using b ne scrape_example_2 by (rule scrape_all_pages_stop)
  then have gen: "scrape_all_pages example_driver 1 170 = ([1, 2], Inr [example_entry])"
    by (simp add: u)
  from caught_exception_ends_pagination [of example_raising_driver 2, OF r z, of 1 170]
  have "scrape_gradcafe_page example_raising_driver 2 = Inr []"
    and "scrape_all_pages example_raising_driver 1 170 = scrape_all_pages example_driver 1 170"
    unfolding d by blast+
  with gen show ?thesis by simp
qed

text \<open>
  When the snapshot of the outer handler raises, the page on which an exception was raised
  does not count as an empty page: the exception of the snapshot leaves the function, and
  with it the loop, whatever the pages before it held.
\<close>

lemma uncaught_exception_leaves_the_loop:
  assumes b: "s \<le> k" "k \<le> e"
    and ne: "\<forall>p\<in>{s..<k}. scrape_gradcafe_page driver p = Inr (rows p) \<and> rows p \<noteq> []"
    and k: "driver k = Raises Snapshot_raises \<or> driver k = NoTable Snapshot_raises Snapshot_raises"
  shows "scrape_all_pages driver s e = ([s..k], Inl Uncaught)
     \<and> collect copy_on_write driver s e = ([s..k], Inl Uncaught)"
proof -
  from k have "scrape_gradcafe_page driver k = Inl Uncaught"
    by (auto simp add: scrape_gradcafe_page_def error_handler_def)
  from scrape_all_pages_escape [OF b ne this] show ?thesis
    by (simp add: collect_def)
qed

lemma example_dead_session_1: "scrape_gradcafe_page example_dead_session 1 = Inr [example_entry]"
proof -
  have "scrape_gradcafe_page example_dead_session 1 = scrape_gradcafe_page example_driver 1"
    by (simp add: scrape_gradcafe_page_def example_dead_session_def example_driver_def)
  then show ?thesis by (simp add: scrape_example_1)
qed

text \<open>
  Claim C9 says that every exception raised while a page is processed is caught, that the
  page then counts as one without rows, and that the loop ends as it does at the genuine end
  of the results. The handler of the source attempts it, and returns the empty list after
  it has saved the page source; nothing guards that snapshot. In the session
  \<open>example_dead_session\<close> page 1 holds the row of the scenario, and on page 2 the request
  raises and so does the snapshot, as with a browser that is gone. The exception leaves
  \<^verbatim>\<open>scrape_gradcafe_page\<close>, the loop and \<^verbatim>\<open>main\<close>: no table is returned and no file is
  written, although page 1 yielded an entry. At the genuine end of the results, the session
  \<open>example_driver\<close>, the loop returns the table with that entry.
\<close>

theorem exception_in_handler_leaves_the_loop:
  "example_dead_session 2 = Raises Snapshot_raises
   \<and> scrape_gradcafe_page example_dead_session 1 = Inr [example_entry]
   \<and> scrape_gradcafe_page example_dead_session 2 = Inl Uncaught
   \<and> scrape_all_pages example_dead_session 1 170 = ([1, 2], Inl Uncaught)
   \<and> collect False example_dead_session 1 170 = ([1, 2], Inl Uncaught)
   \<and> collect True example_dead_session 1 170 = ([1, 2], Inl Uncaught)
   \<and> scrape_gradcafe_page example_driver 2 = Inr []
   \<and> scrape_all_pages example_driver 1 170 = ([1, 2], Inr [example_entry])"
proof -
  have r: "example_dead_session 2 = Raises Snapshot_raises"
    by (simp add: example_dead_session_def)
  have u: "[1..2::int] = [1, 2]" "[1..1::int] = [1]" by (simp_all add: upto_rec1)
  have b: "(1::int) \<le> 2" "(2::int) \<le> 170" by simp_all
  have ne: "\<forall>p\<in>{1..<2::int}. scrape_gradcafe_page example_dead_session p = Inr [example_entry]
      \<and> [example_entry] \<noteq> []"
  proof
    fix p :: int assume "p \<in> {1..<2}"
    then have "p = 1" by simp
    then show "scrape_gradcafe_page example_dead_session p = Inr [example_entry]
        \<and> [example_entry] \<noteq> []"
      using example_dead_session_1 by simp
  qed
  have ne': "\<forall>p\<in>{1..<2::int}. scrape_gradcafe_page example_driver p = Inr [example_entry]
      \<and> [example_entry] \<noteq> []"
  proof
    fix p :: int assume "p \<in> {1..<2}"
    then have "p = 1" by simp
    then show "scrape_gradcafe_page example_driver p = Inr [example_entry]
        \<and> [example_entry] \<noteq> []"
      using scrape_example_1 by simp
  qed
  have k: "example_dead_session 2 = Raises Snapshot_raises
      \<or> example_dead_session 2 = NoTable Snapshot_raises Snapshot_raises"
    using r by simp
  have esc: "scrape_all_pages example_dead_session 1 170 = ([1, 2], Inl Uncaught)"
    "collect False example_dead_session 1 170 = ([1, 2], Inl Uncaught)"
    "collect True example_dead_session 1 170 = ([1, 2], Inl Uncaught)"
    using uncaught_exception_leaves_the_loop [OF b ne k, of False]
      uncaught_exception_leaves_the_loop [OF b ne k, of True]
    by (simp_all add: u)
  have "scrape_all_pages example_driver 1 170 =
      ([1..2], Inr (concat (map (\<lambda>p. [example_entry]) [1..2 - 1])))"
    using b ne' scrape_example_2 by (rule scrape_all_pages_stop)
  then have gen: "scrape_all_pages example_driver 1 170 = ([1, 2], Inr [example_entry])"
    by (simp add: u)
  from r example_dead_session_1 scrape_raises_unsaved [of example_dead_session 2, OF r] esc
    scrape_example_2 gen
  show ?thesis by (intro conjI)
qed

section \<open>The row filter\<close>

text \<open>\<open>contains\<close> is containment as a contiguous block, character for character.\<close>

lemma starts_with_iff: "starts_with sub s \<longleftrightarrow> (\<exists>b. s = sub @ b)"
  by (induction sub s rule: starts_with.induct) auto

lemma contains_iff: "contains sub s \<longleftrightarrow> (\<exists>a b. s = a @ sub @ b)"
proof (induction s)
  case Nil
  then show ?case by (cases sub) auto
next
  case (Cons c cs)
  have "(\<exists>a b. c # cs = a @ sub @ b) \<longleftrightarrow>
        (\<exists>b. c # cs = sub @ b) \<or> (\<exists>a b. cs = a @ sub @ b)"
  proof
    assume "\<exists>a b. c # cs = a @ sub @ b"
    then obtain a b where ab: "c # cs = a @ sub @ b" by blast
    show "(\<exists>b. c # cs = sub @ b) \<or> (\<exists>a b. cs = a @ sub @ b)"
    proof (cases a)
      case Nil
      with ab show ?thesis by auto
    next
      case (Cons x a')
      with ab have "cs = a' @ sub @ b" by simp
      then show ?thesis by blast
    qed
  next
    assume "(\<exists>b. c # cs = sub @ b) \<or> (\<exists>a b. cs = a @ sub @ b)"
    then show "\<exists>a b. c # cs = a @ sub @ b"
    proof
      assume "\<exists>b. c # cs = sub @ b"
      then obtain b where "c # cs = [] @ sub @ b" by auto
      then show ?thesis by blast
    next
      assume "\<exists>a b. cs = a @ sub @ b"
      then obtain a b where "c # cs = (c # a) @ sub @ b" by auto
      then show ?thesis by blast
    qed
  qed
  with Cons show ?case by (simp add: starts_with_iff)
qed

lemma extract_rows_acc:
  "extract_rows rows entries =
     entries @ concat (map (\<lambda>cells. case row_entry cells of None \<Rightarrow> [] | Some e \<Rightarrow> [e]) rows)"
  by (induction rows arbitrary: entries) (simp_all split: option.splits)

lemma row_entry_kept:
  "row_entry cells \<noteq> None \<longleftrightarrow>
     7 \<le> length cells \<and> contains ''Yale'' (strip (cells ! 0))
     \<and> contains ''Political Science'' (strip (cells ! 1))
     \<and> contains ''PhD'' (strip (cells ! 2))"
  by (simp add: row_entry_def Let_def)

text \<open>
  Claim C7. A row of the results table yields an entry if and only if it has at least
  seven cells and its stripped institution, program and degree texts contain
  \<^verbatim>\<open>Yale\<close>, \<^verbatim>\<open>Political Science\<close> and \<^verbatim>\<open>PhD\<close>, character for character (so
  with case). In the entries of a table each row below the header row stands for its own
  entry, or for nothing when it is passed over, whatever the rows around it hold.
\<close>

theorem row_kept_iff_enough_cells_and_targets:
  "(row_entry cells \<noteq> None \<longleftrightarrow>
      7 \<le> length cells
      \<and> (\<exists>a b. strip (cells ! 0) = a @ ''Yale'' @ b)
      \<and> (\<exists>a b. strip (cells ! 1) = a @ ''Political Science'' @ b)
      \<and> (\<exists>a b. strip (cells ! 2) = a @ ''PhD'' @ b))
   \<and> extract_rows (before @ cells # after) [] =
       extract_rows before [] @ (case row_entry cells of None \<Rightarrow> [] | Some e \<Rightarrow> [e])
         @ extract_rows after []
   \<and> scrape_gradcafe_page (driver(p := Table (header # before @ cells # after))) p =
       Inr (extract_rows before [] @ (case row_entry cells of None \<Rightarrow> [] | Some e \<Rightarrow> [e])
         @ extract_rows after [])"
proof -
  have 0: "row_entry cells \<noteq> None \<longleftrightarrow>
      7 \<le> length cells
      \<and> (\<exists>a b. strip (cells ! 0) = a @ ''Yale'' @ b)
      \<and> (\<exists>a b. strip (cells ! 1) = a @ ''Political Science'' @ b)
      \<and> (\<exists>a b. strip (cells ! 2) = a @ ''PhD'' @ b)"
    unfolding contains_iff [symmetric] by (rule row_entry_kept)
  have 1: "extract_rows (before @ cells # after) [] =
       extract_rows before [] @ (case row_entry cells of None \<Rightarrow> [] | Some e \<Rightarrow> [e])
         @ extract_rows after []"
    by (simp add: extract_rows_acc [of _ "[]"])
  have 2: "scrape_gradcafe_page (driver(p := Table (header # before @ cells # after))) p =
       Inr (extract_rows (before @ cells # after) [])"
    by (simp add: scrape_gradcafe_page_def)
  from 0 1 show ?thesis unfolding 2 by blast
qed

theorem row_kept_iff_enough_cells_and_targets_witness:
  "row_entry example_cells \<noteq> None
   \<and> row_entry example_short_cells = None
   \<and> row_entry example_lower_case_cells = None
   \<and> length (extract_rows [example_short_cells, example_cells, example_lower_case_cells] []) = 1"
proof -
  note kept = row_kept_iff_enough_cells_and_targets
  have s: "strip ''Yale University'' = ''Yale University''"
    "strip ''Political Science'' = ''Political Science''"
    "strip ''PhD'' = ''PhD''" "strip ''yale university'' = ''yale university''"
    by (simp_all add: strip_def is_space_def)
  have "7 \<le> length example_cells \<and> contains ''Yale'' (strip (example_cells ! 0))
      \<and> contains ''Political Science'' (strip (example_cells ! 1))
      \<and> contains ''PhD'' (strip (example_cells ! 2))"
    by (simp add: example_cells_def s)
  moreover have "\<not> 7 \<le> length example_short_cells"
    by (simp add: example_short_cells_def)
  moreover have "\<not> contains ''Yale'' (strip (example_lower_case_cells ! 0))"
    by (simp add: example_lower_case_cells_def s)
  ultimately have k: "row_entry example_cells \<noteq> None"
    and sh: "row_entry example_short_cells = None"
    and lo: "row_entry example_lower_case_cells = None"
    using kept [of example_cells "[]" "[]" example_driver 1 "[]"]
      kept [of example_short_cells "[]" "[]" example_driver 1 "[]"]
      kept [of example_lower_case_cells "[]" "[]" example_driver 1 "[]"]
    unfolding contains_iff [symmetric] by blast+
  from k obtain e where e: "row_entry example_cells = Some e" by blast
  have "extract_rows ([example_short_cells] @ example_cells # [example_lower_case_cells]) [] =
      extract_rows [example_short_cells] []
        @ (case row_entry example_cells of None \<Rightarrow> [] | Some e \<Rightarrow> [e])
        @ extract_rows [example_lower_case_cells] []"
    using kept [of example_cells "[example_short_cells]" "[example_lower_case_cells]"
        example_driver 1 "[]"]
    by blast
  then have "length (extract_rows [example_short_cells, example_cells, example_lower_case_cells] []) = 1"
    by (simp add: e sh lo)
  with k sh lo show ?thesis by blast
qed

section \<open>The matcher\<close>

text \<open>
  A literal matches a text that is equal to it up to case; a search succeeds when the
  pattern matches at some position, and returns the match at the first such position.
\<close>

lemma lit_Nil: "lit [] = []"
  by (simp add: lit_def)

lemma lit_Cons: "lit (p # ps) = One (\<lambda>c. lower c = lower p) # lit ps"
  by (simp add: lit_def)

lemma match_lit:
  "map lower m = map lower l \<Longrightarrow>
   match_here (lit l @ its) (m @ r) = map_option ((@) (map (\<lambda>c. [c]) m)) (match_here its r)"
proof (induction l arbitrary: m)
  case Nil
  then show ?case by (simp add: lit_Nil option.map_ident)
next
  case (Cons p ps)
  then obtain x xs where m: "m = x # xs" by (cases m) auto
  with Cons.prems have "lower x = lower p" "map lower xs = map lower ps" by simp_all
  with Cons.IH [of xs] show ?case
    by (simp add: m lit_Cons option.map_comp o_def)
qed

lemma match_lit_only_if:
  "match_here (lit l @ its) s \<noteq> None \<Longrightarrow>
   \<exists>m r. s = m @ r \<and> map lower m = map lower l \<and> match_here its r \<noteq> None"
proof (induction l arbitrary: s)
  case Nil
  then show ?case by (simp add: lit_Nil)
next
  case (Cons p ps)
  then obtain x xs where s: "s = x # xs" by (cases s) (auto simp add: lit_Cons)
  with Cons.prems have x: "lower x = lower p" and "match_here (lit ps @ its) xs \<noteq> None"
    by (auto simp add: lit_Cons split: if_splits)
  with Cons.IH [of xs] obtain m r where
    "xs = m @ r" "map lower m = map lower ps" "match_here its r \<noteq> None" by blast
  with x s have "s = (x # m) @ r \<and> map lower (x # m) = map lower (p # ps)
      \<and> match_here its r \<noteq> None" by simp
  then show ?case by blast
qed

lemma match_lit_iff:
  "match_here (lit l @ its) s \<noteq> None \<longleftrightarrow>
   (\<exists>m r. s = m @ r \<and> map lower m = map lower l \<and> match_here its r \<noteq> None)"
proof
  assume "match_here (lit l @ its) s \<noteq> None"
  then show "\<exists>m r. s = m @ r \<and> map lower m = map lower l \<and> match_here its r \<noteq> None"
    by (rule match_lit_only_if)
next
  assume "\<exists>m r. s = m @ r \<and> map lower m = map lower l \<and> match_here its r \<noteq> None"
  then obtain m r where "s = m @ r" "map lower m = map lower l" "match_here its r \<noteq> None"
    by blast
  then show "match_here (lit l @ its) s \<noteq> None"
    using match_lit [of m l its r] by auto
qed

lemma re_search_iff:
  "re_search pat s \<noteq> None \<longleftrightarrow> (\<exists>a r. s = a @ r \<and> match_here pat r \<noteq> None)"
proof (induction s)
  case Nil
  then show ?case by simp
next
  case (Cons c cs)
  have "(\<exists>a r. c # cs = a @ r \<and> match_here pat r \<noteq> None) \<longleftrightarrow>
        match_here pat (c # cs) \<noteq> None \<or> (\<exists>a r. cs = a @ r \<and> match_here pat r \<noteq> None)"
  proof
    assume "\<exists>a r. c # cs = a @ r \<and> match_here pat r \<noteq> None"
    then obtain a r where ar: "c # cs = a @ r" "match_here pat r \<noteq> None" by blast
    show "match_here pat (c # cs) \<noteq> None \<or> (\<exists>a r. cs = a @ r \<and> match_here pat r \<noteq> None)"
    proof (cases a)
      case Nil
      with ar show ?thesis by simp
    next
      case (Cons x a')
      with ar have "cs = a' @ r" by simp
      with ar(2) show ?thesis by blast
    qed
  next
    assume "match_here pat (c # cs) \<noteq> None \<or> (\<exists>a r. cs = a @ r \<and> match_here pat r \<noteq> None)"
    then show "\<exists>a r. c # cs = a @ r \<and> match_here pat r \<noteq> None"
    proof
      assume "match_here pat (c # cs) \<noteq> None"
      then have "c # cs = [] @ (c # cs) \<and> match_here pat (c # cs) \<noteq> None" by simp
      then show ?thesis by blast
    next
      assume "\<exists>a r. cs = a @ r \<and> match_here pat r \<noteq> None"
      then obtain a r where "c # cs = (c # a) @ r \<and> match_here pat r \<noteq> None" by auto
      then show ?thesis by blast
    qed
  qed
  with Cons show ?case by (auto split: option.splits)
qed


lemma search_lit_iff:
  "re_search (lit l) s \<noteq> None \<longleftrightarrow> (\<exists>a m b. s = a @ m @ b \<and> map lower m = map lower l)"
proof -
  have "match_here (lit l) r \<noteq> None \<longleftrightarrow> (\<exists>m b. r = m @ b \<and> map lower m = map lower l)" for r
    using match_lit_iff [of l "[]" r] by simp
  then show ?thesis unfolding re_search_iff by blast
qed

section \<open>The Analyzer's filter\<close>

lemma str_contains_iff:
  "str_contains pat x \<longleftrightarrow>
     (\<exists>s a m b. x = Some s \<and> s = a @ m @ b \<and> map lower m = map lower pat)"
proof (cases x)
  case None
  then show ?thesis by (simp add: str_contains_def)
next
  case (Some s)
  then have "str_contains pat x \<longleftrightarrow> re_search (lit pat) s \<noteq> None"
    by (simp add: str_contains_def del: not_None_eq)
  with Some show ?thesis unfolding search_lit_iff by blast
qed

lemma str_contains_examples:
  "str_contains ''Yale'' (Some ''Royale Business School'')"
  "str_contains ''Political Science'' (Some ''Apolitical Sciences'')"
  "str_contains ''Yale'' (Some ''YALE UNIVERSITY'')"
  "str_contains ''Political Science'' (Some ''political science'')"
  "\<not> str_contains ''Yale'' (Some ''Harvard University'')"
  "\<not> str_contains ''Yale'' None"
  by (simp_all add: str_contains_def lit_def lower_def)

text \<open>
  Claim C8. The filter keeps, in order, exactly the rows whose \<open>uni_name\<close> is present
  and contains a block equal to \<^verbatim>\<open>Yale\<close> up to case and whose \<open>major\<close> is present
  and contains a block equal to \<^verbatim>\<open>Political Science\<close> up to case: a substring match,
  not an exact one. In particular the row of the Royale Business School and its Apolitical
  Sciences programme is kept.
\<close>

theorem analyzer_filter_is_substring_match:
  "analyze_yale_polisci (Some rows) =
     Some (filter (\<lambda>r.
        (\<exists>s a m b. uni_name r = Some s \<and> s = a @ m @ b \<and> map lower m = map lower ''Yale'')
        \<and> (\<exists>s a m b. major r = Some s \<and> s = a @ m @ b
              \<and> map lower m = map lower ''Political Science'')) rows)
   \<and> analyze_yale_polisci (Some [example_unrelated_row]) = Some [example_unrelated_row]"
proof -
  have "analyze_yale_polisci (Some [example_unrelated_row]) = Some [example_unrelated_row]"
    by (simp add: analyze_yale_polisci_def example_unrelated_row_def str_contains_examples)
  moreover have "analyze_yale_polisci (Some rows) =
     Some (filter (\<lambda>r.
        (\<exists>s a m b. uni_name r = Some s \<and> s = a @ m @ b \<and> map lower m = map lower ''Yale'')
        \<and> (\<exists>s a m b. major r = Some s \<and> s = a @ m @ b
              \<and> map lower m = map lower ''Political Science'')) rows)"
    unfolding str_contains_iff [symmetric] by (simp add: analyze_yale_polisci_def)
  ultimately show ?thesis by blast
qed

theorem analyzer_filter_is_substring_match_witness:
  "analyze_yale_polisci
     (Some [example_other_row, example_exact_row, example_missing_row, example_unrelated_row]) =
   Some [example_exact_row, example_unrelated_row]"
proof -
  have "analyze_yale_polisci
     (Some [example_other_row, example_exact_row, example_missing_row, example_unrelated_row]) =
     Some (filter (\<lambda>r. str_contains ''Yale'' (uni_name r)
                        \<and> str_contains ''Political Science'' (major r))
       [example_other_row, example_exact_row, example_missing_row, example_unrelated_row])"
    using analyzer_filter_is_substring_match
      [of "[example_other_row, example_exact_row, example_missing_row, example_unrelated_row]"]
    unfolding str_contains_iff [symmetric] by blast
  then show ?thesis
    by (simp add: example_other_row_def example_exact_row_def example_missing_row_def
        example_unrelated_row_def str_contains_examples)
qed

section \<open>The statistics parser\<close>






























text \<open>
  The no-break space (code 160) and the next-line control (code 133) are white space of the
  pattern and of \<^verbatim>\<open>strip\<close>: a number that follows one of them is found.
\<close>

lemma no_break_space_separates:
  "is_space (CHR 0xA0)" "is_space (CHR 0x85)"
  "gpa (parse_stats (''GPA:'' @ [CHR 0xA0] @ ''1.5 GPA: 3.5'')) = Some (3 / 2)"
  "strip ([CHR 0xA0] @ ''PhD'' @ [CHR 0x85]) = ''PhD''"
  by (simp_all add: parse_stats_def text_defs pattern_defs)











end
